theory Spec2Isabelle
  imports Main "HOL-Library.Sublist"
begin

section \<open>Incremental asset-compilation tasks (material, IBL, mesh)\<close>

text \<open>
  The build script defines three incremental tasks, \<open>MaterialCompiler\<close>,
  \<open>IblGenerator\<close> and \<open>MeshCompiler\<close>.  Each one cleans its output
  directory on a non-incremental run, runs an external tool on every out-of-date input
  and deletes the mapped output of every removed input.  The tasks are embedded as
  functions on an explicit world (the files on disk and a trace of what the task did);
  an exception of the script is a value of the type \<open>error\<close>, returned together
  with the world at the moment it was thrown.
\<close>

subsection \<open>Strings: \<open>lastIndexOf\<close> and Groovy's range subscript\<close>

datatype error =
    StringIndexOutOfBoundsException
  | StopActionException string
  | ExecException string int
  | ExecStartException string
  | UncheckedIOException string

text \<open>
  \<open>String.lastIndexOf(ch)\<close>: the index of the last occurrence of the character,
  \<open>-1\<close> when there is none.
\<close>

fun lastIndexOf :: "string \<Rightarrow> char \<Rightarrow> int" where
  "lastIndexOf [] c = - 1"
| "lastIndexOf (x # xs) c =
     (let r = lastIndexOf xs c in
      if 0 \<le> r then r + 1 else if x = c then 0 else - 1)"

text \<open>
  \<open>String.substring(begin, end)\<close> raises when \<open>begin < 0\<close>, \<open>end > length\<close>
  or \<open>begin > end\<close>.
\<close>

definition substring :: "string \<Rightarrow> int \<Rightarrow> int \<Rightarrow> error + string" where
  "substring text b e =
     (if b < 0 \<or> int (length text) < e \<or> e < b then Inl StringIndexOutOfBoundsException
      else Inr (take (nat (e - b)) (drop (nat b) text)))"

text \<open>
  \<open>text[from..to]\<close> with an inclusive integer range.  Groovy adds the length to a
  negative bound; when the lower bound then exceeds the upper one the range is read
  backwards (the bounds are swapped and the substring reversed); the substring is taken
  with \<open>String.substring\<close>, which is where an out-of-range bound raises.
\<close>

definition getAt :: "string \<Rightarrow> int \<Rightarrow> int \<Rightarrow> error + string" where
  "getAt text from to =
     (let size = int (length text);
          tempFrom = (if from < 0 then from + size else from);
          tempTo = (if to < 0 then to + size else to)
      in if tempTo < tempFrom
         then (case substring text tempTo (tempFrom + 1) of
                 Inl e \<Rightarrow> Inl e
               | Inr s \<Rightarrow> Inr (rev s))
         else substring text tempFrom (tempTo + 1))"

subsection \<open>Files and the Output Mappers\<close>

text \<open>
  A \<open>java.io.File\<close> is the directory it lies in and its name (the last path
  component); \<open>new File(dir, child)\<close> is \<open>File dir child\<close>.  Its string form is
  the path.
\<close>

datatype File = File (parent: string) (name: string)

definition toString :: "File \<Rightarrow> string" where
  "toString f = parent f @ ''/'' @ name f"

text \<open>
  The configuration of a task: the path of its tool (\<open>matcPath\<close>, \<open>cmgenPath\<close>,
  \<open>filameshPath\<close>), the path of its output directory as it was configured
  (\<open>outputDir\<close>) and the absolute path of that directory
  (\<open>outputDir.absolutePath\<close>), which differs from it when the configured path is
  relative.
\<close>

record Task =
  toolPath :: string
  outputDir :: string
  outputDirAbsolutePath :: string

definition MaterialCompiler_getOutputFile :: "Task \<Rightarrow> File \<Rightarrow> error + File" where
  "MaterialCompiler_getOutputFile t file =
     (case getAt (name file) 0 (lastIndexOf (name file) CHR ''.'') of
        Inl e \<Rightarrow> Inl e
      | Inr s \<Rightarrow> Inr (File (outputDir t) (s @ ''filamat'')))"

definition IblGenerator_getOutputFile :: "Task \<Rightarrow> File \<Rightarrow> error + File" where
  "IblGenerator_getOutputFile t file =
     (case getAt (name file) 0 (lastIndexOf (name file) CHR ''.'' - 1) of
        Inl e \<Rightarrow> Inl e
      | Inr s \<Rightarrow> Inr (File (outputDir t) s))"

definition MeshCompiler_getOutputFile :: "Task \<Rightarrow> File \<Rightarrow> error + File" where
  "MeshCompiler_getOutputFile t file =
     (case getAt (name file) 0 (lastIndexOf (name file) CHR ''.'') of
        Inl e \<Rightarrow> Inl e
      | Inr s \<Rightarrow> Inr (File (outputDir t) (s @ ''filamesh'')))"

subsection \<open>The world of a task run\<close>

text \<open>
  What the script does not define is taken from the environment: whether a path exists
  (\<open>File.exists\<close>, and whether a process can be started from it), the exit value of
  a tool invocation and what it writes to disk, whether a file can be deleted, and the
  operating system.  The text a tool writes to its output streams is not modelled.
\<close>

record env =
  isWindows :: bool
  fileExists :: "string \<Rightarrow> bool"
  toolExit :: "string \<Rightarrow> string list \<Rightarrow> int"
  toolEffect :: "string \<Rightarrow> string list \<Rightarrow> File list \<Rightarrow> File list"
  deletable :: "File \<Rightarrow> bool"

datatype LogLevel = LIFECYCLE | ERROR

datatype event =
    Logged LogLevel string
  | Exec string "string list" int
  | Delete File bool

record world =
  files :: "File list"
  trace :: "event list"

datatype outcome = Ok world | Threw error world

definition andThen :: "outcome \<Rightarrow> (world \<Rightarrow> outcome) \<Rightarrow> outcome" where
  "andThen r f = (case r of Ok w \<Rightarrow> f w | Threw e w \<Rightarrow> Threw e w)"

definition worldOf :: "outcome \<Rightarrow> world" where
  "worldOf r = (case r of Ok w \<Rightarrow> w | Threw e w \<Rightarrow> w)"

fun execsOf :: "event list \<Rightarrow> (string \<times> string list) list" where
  "execsOf [] = []"
| "execsOf (Exec exe args rc # es) = (exe, args) # execsOf es"
| "execsOf (e # es) = execsOf es"

fun deletesOf :: "event list \<Rightarrow> (File \<times> bool) list" where
  "deletesOf [] = []"
| "deletesOf (Delete f ok # es) = (f, ok) # deletesOf es"
| "deletesOf (e # es) = deletesOf es"

text \<open>
  \<open>getBinaries\<close>: the two candidate paths of a tool under the tools directory; the
  script stops when neither exists.
\<close>

definition getBinaries :: "env \<Rightarrow> string \<Rightarrow> string \<Rightarrow> error + string list" where
  "getBinaries env n toolsPath =
     (let tool = [''/bin/'' @ n @ ''.exe'', ''/bin/'' @ n];
          toolFullPath = map (\<lambda>path. toolsPath @ path) tool
      in if \<not> list_ex (fileExists env) toolFullPath
         then Inl (StopActionException (''No '' @ n @ '' binary could be found in '' @ toolsPath @
                ''/bin. Ensure Filament has been built/installed before building this app.''))
         else Inr toolFullPath)"

text \<open>
  \<open>LogOutputStream\<close>: \<open>flush\<close> hands the buffered bytes to the logger at the
  stream's level and resets the buffer.  The tasks write one header and flush at once.
\<close>

definition LogOutputStream_flush :: "LogLevel \<Rightarrow> string \<Rightarrow> world \<Rightarrow> world" where
  "LogOutputStream_flush level buf w = w\<lparr>trace := trace w @ [Logged level buf]\<rparr>"

text \<open>
  \<open>project.exec\<close> runs the executable with the arguments and waits for it.  It
  throws when the process cannot be started and, the exit value not being ignored, when
  the exit value is not zero.
\<close>

definition project_exec :: "env \<Rightarrow> string \<Rightarrow> string list \<Rightarrow> world \<Rightarrow> outcome" where
  "project_exec env exe args w =
     (if \<not> fileExists env exe then Threw (ExecStartException exe) w
      else let rc = toolExit env exe args;
               w' = w\<lparr>files := toolEffect env exe args (files w),
                      trace := trace w @ [Exec exe args rc]\<rparr>
           in if rc \<noteq> 0 then Threw (ExecException exe rc) w' else Ok w')"

text \<open>
  An include pattern of one path segment: \<open>*\<close> stands for any run of characters,
  \<open>?\<close> for one character.  \<open>fileTree(dir).matching { include pat }\<close> holds
  the files lying directly in \<open>dir\<close> whose name matches.
\<close>

fun glob :: "string \<Rightarrow> string \<Rightarrow> bool" where
  "glob [] s = (s = [])"
| "glob (p # ps) [] = (p = CHR ''*'' \<and> glob ps [])"
| "glob (p # ps) (c # cs) =
     (if p = CHR ''*'' then glob ps (c # cs) \<or> glob (p # ps) cs
      else if p = CHR ''?'' then glob ps cs
      else p = c \<and> glob ps cs)"

definition fileTree_matching :: "string \<Rightarrow> string \<Rightarrow> world \<Rightarrow> File list" where
  "fileTree_matching dir pat w =
     filter (\<lambda>f. parent f = dir \<and> glob pat (name f)) (files w)"

text \<open>
  \<open>project.delete\<close> deletes the files one after the other and throws at the first
  one it cannot delete.
\<close>

fun project_delete :: "env \<Rightarrow> File list \<Rightarrow> world \<Rightarrow> outcome" where
  "project_delete env [] w = Ok w"
| "project_delete env (f # fs) w =
     (if deletable env f
      then project_delete env fs
             (w\<lparr>files := removeAll f (files w), trace := trace w @ [Delete f True]\<rparr>)
      else Threw (UncheckedIOException (''Unable to delete file: '' @ toString f))
             (w\<lparr>trace := trace w @ [Delete f False]\<rparr>))"

text \<open>
  The world lists the regular files.  A path is a directory that is not empty when a
  file of the world lies under it, directly or in a subdirectory.
\<close>

definition under :: "File \<Rightarrow> File \<Rightarrow> bool" where
  "under dir f = (parent f = toString dir \<or> prefix (toString dir @ ''/'') (parent f))"

text \<open>
  \<open>File.delete()\<close> returns whether the path was deleted; it does not throw when it
  was not.  A directory that is not empty is not deleted.
\<close>

definition File_delete :: "env \<Rightarrow> File \<Rightarrow> world \<Rightarrow> bool \<times> world" where
  "File_delete env f w =
     (if list_ex (under f) (files w)
      then (False, w\<lparr>trace := trace w @ [Delete f False]\<rparr>)
      else if f \<in> set (files w) \<and> deletable env f
      then (True, w\<lparr>files := removeAll f (files w), trace := trace w @ [Delete f True]\<rparr>)
      else (False, w\<lparr>trace := trace w @ [Delete f False]\<rparr>))"

text \<open>
  \<open>IncrementalTaskInputs\<close>, as the build host hands it to a task action: whether
  the run is incremental, the out-of-date inputs and the removed inputs, in the order in
  which the host passes them to the two closures.
\<close>

record IncrementalTaskInputs =
  incremental :: bool
  outOfDate :: "File list"
  removed :: "File list"

fun forEach :: "(File \<Rightarrow> world \<Rightarrow> outcome) \<Rightarrow> File list \<Rightarrow> world \<Rightarrow> outcome" where
  "forEach act [] w = Ok w"
| "forEach act (f # fs) w =
     (case act f w of Ok w' \<Rightarrow> forEach act fs w' | Threw e w' \<Rightarrow> Threw e w')"

subsection \<open>The three tasks\<close>

text \<open>The constructors pick the tool path for the operating system.\<close>

definition MaterialCompiler :: "env \<Rightarrow> string list \<Rightarrow> string \<Rightarrow> string \<Rightarrow> Task" where
  "MaterialCompiler env matcFullPath dir absDir =
     \<lparr>toolPath = (if isWindows env then matcFullPath ! 0 else matcFullPath ! 1),
      outputDir = dir, outputDirAbsolutePath = absDir\<rparr>"

definition IblGenerator :: "env \<Rightarrow> string list \<Rightarrow> string \<Rightarrow> string \<Rightarrow> Task" where
  "IblGenerator env cmgenFullPath dir absDir =
     \<lparr>toolPath = (if isWindows env then cmgenFullPath ! 0 else cmgenFullPath ! 1),
      outputDir = dir, outputDirAbsolutePath = absDir\<rparr>"

definition MeshCompiler :: "env \<Rightarrow> string list \<Rightarrow> string \<Rightarrow> string \<Rightarrow> Task" where
  "MeshCompiler env filameshFullPath dir absDir =
     \<lparr>toolPath = (if isWindows env then filameshFullPath ! 0 else filameshFullPath ! 1),
      outputDir = dir, outputDirAbsolutePath = absDir\<rparr>"

definition MaterialCompiler_outOfDate :: "env \<Rightarrow> Task \<Rightarrow> File \<Rightarrow> world \<Rightarrow> outcome" where
  "MaterialCompiler_outOfDate env t file w =
     (let w1 = LogOutputStream_flush LIFECYCLE
                 (''Compiling material '' @ toString file @ [CHR 0x0A]) w
      in case MaterialCompiler_getOutputFile t file of
           Inl e \<Rightarrow> Threw e w1
         | Inr out \<Rightarrow>
             project_exec env (toolPath t)
               [''-O'', ''-p'', ''mobile'', ''-o'', toString out, toString file] w1)"

definition MaterialCompiler_removed :: "env \<Rightarrow> Task \<Rightarrow> File \<Rightarrow> world \<Rightarrow> outcome" where
  "MaterialCompiler_removed env t file w =
     (case MaterialCompiler_getOutputFile t file of
        Inl e \<Rightarrow> Threw e w
      | Inr out \<Rightarrow> Ok (snd (File_delete env out w)))"

definition MaterialCompiler_execute ::
  "env \<Rightarrow> Task \<Rightarrow> IncrementalTaskInputs \<Rightarrow> world \<Rightarrow> outcome" where
  "MaterialCompiler_execute env t inputs w =
     andThen
       (andThen
          (if \<not> incremental inputs
           then project_delete env (fileTree_matching (outputDir t) ''*.filamat'' w) w
           else Ok w)
          (forEach (MaterialCompiler_outOfDate env t) (outOfDate inputs)))
       (forEach (MaterialCompiler_removed env t) (removed inputs))"

definition IblGenerator_outOfDate :: "env \<Rightarrow> Task \<Rightarrow> File \<Rightarrow> world \<Rightarrow> outcome" where
  "IblGenerator_outOfDate env t file w =
     (let w1 = LogOutputStream_flush LIFECYCLE
                 (''Generating IBL '' @ toString file @ [CHR 0x0A]) w
      in andThen
           (project_exec env (toolPath t) [''-x'', outputDir t, toString file] w1)
           (project_exec env (toolPath t)
              [''--format=rgbm'', ''--extract-blur=0.08'', ''--extract='' @ outputDirAbsolutePath t,
               toString file]))"

definition IblGenerator_removed :: "env \<Rightarrow> Task \<Rightarrow> File \<Rightarrow> world \<Rightarrow> outcome" where
  "IblGenerator_removed env t file w =
     (case IblGenerator_getOutputFile t file of
        Inl e \<Rightarrow> Threw e w
      | Inr out \<Rightarrow> Ok (snd (File_delete env out w)))"

definition IblGenerator_execute ::
  "env \<Rightarrow> Task \<Rightarrow> IncrementalTaskInputs \<Rightarrow> world \<Rightarrow> outcome" where
  "IblGenerator_execute env t inputs w =
     andThen
       (andThen
          (if \<not> incremental inputs
           then project_delete env (fileTree_matching (outputDir t) ''*'' w) w
           else Ok w)
          (forEach (IblGenerator_outOfDate env t) (outOfDate inputs)))
       (forEach (IblGenerator_removed env t) (removed inputs))"

definition MeshCompiler_outOfDate :: "env \<Rightarrow> Task \<Rightarrow> File \<Rightarrow> world \<Rightarrow> outcome" where
  "MeshCompiler_outOfDate env t file w =
     (let w1 = LogOutputStream_flush LIFECYCLE
                 (''Compiling mesh '' @ toString file @ [CHR 0x0A]) w
      in case MeshCompiler_getOutputFile t file of
           Inl e \<Rightarrow> Threw e w1
         | Inr out \<Rightarrow> project_exec env (toolPath t) [toString file, toString out] w1)"

definition MeshCompiler_removed :: "env \<Rightarrow> Task \<Rightarrow> File \<Rightarrow> world \<Rightarrow> outcome" where
  "MeshCompiler_removed env t file w =
     (case MeshCompiler_getOutputFile t file of
        Inl e \<Rightarrow> Threw e w
      | Inr out \<Rightarrow> Ok (snd (File_delete env out w)))"

definition MeshCompiler_execute ::
  "env \<Rightarrow> Task \<Rightarrow> IncrementalTaskInputs \<Rightarrow> world \<Rightarrow> outcome" where
  "MeshCompiler_execute env t inputs w =
     andThen
       (andThen
          (if \<not> incremental inputs
           then project_delete env (fileTree_matching (outputDir t) ''*.filamesh'' w) w
           else Ok w)
          (forEach (MeshCompiler_outOfDate env t) (outOfDate inputs)))
       (forEach (MeshCompiler_removed env t) (removed inputs))"

subsection \<open>The common skeleton of the tasks\<close>

text \<open>
  The three tasks differ in the clean-up pattern, the header line, the command lines
  and the Output Mapper.  The skeleton below takes these from the kind of task; it is
  shown further down to compute what the three \<open>execute\<close> methods compute.
\<close>

datatype TaskKind = Material | Ibl | Mesh

definition execute ::
  "TaskKind \<Rightarrow> env \<Rightarrow> Task \<Rightarrow> IncrementalTaskInputs \<Rightarrow> world \<Rightarrow> outcome" where
  "execute k =
     (case k of Material \<Rightarrow> MaterialCompiler_execute
              | Ibl \<Rightarrow> IblGenerator_execute
              | Mesh \<Rightarrow> MeshCompiler_execute)"

definition getOutputFile :: "TaskKind \<Rightarrow> Task \<Rightarrow> File \<Rightarrow> error + File" where
  "getOutputFile k =
     (case k of Material \<Rightarrow> MaterialCompiler_getOutputFile
              | Ibl \<Rightarrow> IblGenerator_getOutputFile
              | Mesh \<Rightarrow> MeshCompiler_getOutputFile)"

definition pattern :: "TaskKind \<Rightarrow> string" where
  "pattern k = (case k of Material \<Rightarrow> ''*.filamat'' | Ibl \<Rightarrow> ''*'' | Mesh \<Rightarrow> ''*.filamesh'')"

definition header :: "TaskKind \<Rightarrow> File \<Rightarrow> string" where
  "header k file =
     (case k of Material \<Rightarrow> ''Compiling material ''
              | Ibl \<Rightarrow> ''Generating IBL ''
              | Mesh \<Rightarrow> ''Compiling mesh '') @ toString file @ [CHR 0x0A]"

definition commands :: "TaskKind \<Rightarrow> Task \<Rightarrow> File \<Rightarrow> error + string list list" where
  "commands k t file =
     (case k of
        Material \<Rightarrow>
          (case MaterialCompiler_getOutputFile t file of
             Inl e \<Rightarrow> Inl e
           | Inr out \<Rightarrow> Inr [[''-O'', ''-p'', ''mobile'', ''-o'', toString out, toString file]])
      | Ibl \<Rightarrow>
          Inr [[''-x'', outputDir t, toString file],
               [''--format=rgbm'', ''--extract-blur=0.08'', ''--extract='' @ outputDirAbsolutePath t,
                toString file]]
      | Mesh \<Rightarrow>
          (case MeshCompiler_getOutputFile t file of
             Inl e \<Rightarrow> Inl e
           | Inr out \<Rightarrow> Inr [[toString file, toString out]]))"

fun runAll :: "env \<Rightarrow> string \<Rightarrow> string list list \<Rightarrow> world \<Rightarrow> outcome" where
  "runAll env exe [] w = Ok w"
| "runAll env exe (a # as) w = andThen (project_exec env exe a w) (runAll env exe as)"

definition process :: "TaskKind \<Rightarrow> env \<Rightarrow> Task \<Rightarrow> File \<Rightarrow> world \<Rightarrow> outcome" where
  "process k env t file w =
     (let w1 = LogOutputStream_flush LIFECYCLE (header k file) w
      in case commands k t file of
           Inl e \<Rightarrow> Threw e w1
         | Inr cs \<Rightarrow> runAll env (toolPath t) cs w1)"

definition deleteMapped :: "(File \<Rightarrow> error + File) \<Rightarrow> env \<Rightarrow> File \<Rightarrow> world \<Rightarrow> outcome" where
  "deleteMapped mapper env file w =
     (case mapper file of
        Inl e \<Rightarrow> Threw e w
      | Inr out \<Rightarrow> Ok (snd (File_delete env out w)))"

definition clean :: "TaskKind \<Rightarrow> env \<Rightarrow> Task \<Rightarrow> IncrementalTaskInputs \<Rightarrow> world \<Rightarrow> outcome" where
  "clean k env t inputs w =
     (if \<not> incremental inputs
      then project_delete env (fileTree_matching (outputDir t) (pattern k) w) w
      else Ok w)"

definition engine ::
  "TaskKind \<Rightarrow> env \<Rightarrow> Task \<Rightarrow> IncrementalTaskInputs \<Rightarrow> world \<Rightarrow> outcome" where
  "engine k env t inputs w =
     andThen
       (andThen (clean k env t inputs w) (forEach (process k env t) (outOfDate inputs)))
       (forEach (deleteMapped (getOutputFile k t) env) (removed inputs))"

text \<open>
  The tool invocations a changed input stands for, and whether all of them can be
  started and exit with status zero.
\<close>

definition invocations :: "TaskKind \<Rightarrow> Task \<Rightarrow> File \<Rightarrow> (string \<times> string list) list" where
  "invocations k t file =
     (case commands k t file of Inl e \<Rightarrow> [] | Inr cs \<Rightarrow> map (Pair (toolPath t)) cs)"

definition succeeds :: "TaskKind \<Rightarrow> env \<Rightarrow> Task \<Rightarrow> File \<Rightarrow> bool" where
  "succeeds k env t file =
     (case commands k t file of
        Inl e \<Rightarrow> False
      | Inr cs \<Rightarrow> fileExists env (toolPath t) \<and> list_all (\<lambda>a. toolExit env (toolPath t) a = 0) cs)"

subsection \<open>The build host's change detection\<close>

text \<open>A snapshot: the input paths of a build with their fingerprints.\<close>

type_synonym Snapshot = "(File \<times> nat) list"

text \<open>
  Modelled from the spec: the snapshot of the previous build and the diff against it are
  kept by the build host (Gradle's implementation of \<open>IncrementalTaskInputs\<close>), which
  is not part of the source.  A snapshot records a fingerprint for every input path.
  With no previous snapshot the run is not incremental and every current input is
  out of date; otherwise an input is out of date when the snapshot does not hold its
  current fingerprint, and removed when the snapshot holds it and it is no longer among
  the current inputs.  After a run the snapshot reflects the current inputs and their
  fingerprints.
\<close>

definition computeDelta :: "Snapshot option \<Rightarrow> Snapshot \<Rightarrow> IncrementalTaskInputs" where
  "computeDelta previous current =
     (case previous of
        None \<Rightarrow> \<lparr>incremental = False, outOfDate = map fst current, removed = []\<rparr>
      | Some s \<Rightarrow>
          \<lparr>incremental = True,
           outOfDate = map fst (filter (\<lambda>(f, p). map_of s f \<noteq> Some p) current),
           removed = filter (\<lambda>f. f \<notin> fst ` set current) (remdups (map fst s))\<rparr>)"

subsection \<open>Example runs\<close>

text \<open>
  A host that is not Windows, with \<open>matc\<close> and \<open>cmgen\<close> installed.  The tools
  exit with status 1 on the inputs \<open>in/bad.mat\<close> and \<open>in/bad.hdr\<close> and with 0
  on every other input, and
  the file \<open>c.filamat\<close> cannot be deleted.
\<close>

definition exampleEnv :: env where
  "exampleEnv =
     \<lparr>isWindows = False,
      fileExists = (\<lambda>p. p = ''tools/bin/matc'' \<or> p = ''tools/bin/cmgen''),
      toolExit = (\<lambda>exe args. if ''in/bad.mat'' \<in> set args \<or> ''in/bad.hdr'' \<in> set args
                             then 1 else 0),
      toolEffect = (\<lambda>exe args fs. fs),
      deletable = (\<lambda>f. name f \<noteq> ''c.filamat'')\<rparr>"

definition exampleTask :: Task where
  "exampleTask = \<lparr>toolPath = ''tools/bin/matc'', outputDir = ''out'', outputDirAbsolutePath = ''/work/out''\<rparr>"

definition exampleIblTask :: Task where
  "exampleIblTask = \<lparr>toolPath = ''tools/bin/cmgen'', outputDir = ''out'', outputDirAbsolutePath = ''/work/out''\<rparr>"

definition exampleWorld :: world where
  "exampleWorld = \<lparr>files = [File ''out'' ''c.filamat'', File ''out'' ''d.filamat''], trace = []\<rparr>"

text \<open>
  A host that is not Windows on which only the Windows binary of \<open>matc\<close> is
  installed.
\<close>

definition crossEnv :: env where
  "crossEnv =
     \<lparr>isWindows = False,
      fileExists = (\<lambda>p. p = ''tools/bin/matc.exe''),
      toolExit = (\<lambda>exe args. 0),
      toolEffect = (\<lambda>exe args fs. fs),
      deletable = (\<lambda>f. True)\<rparr>"

section \<open>Properties\<close>

subsection \<open>Strings\<close>

lemma lastIndexOf_absent: "c \<notin> set s \<Longrightarrow> lastIndexOf s c = - 1"
  by (induction s) (auto simp add: Let_def)

lemma lastIndexOf_append:
  "c \<notin> set ext \<Longrightarrow> lastIndexOf (base @ c # ext) c = int (length base)"
  by (induction base) (simp_all add: Let_def lastIndexOf_absent)

lemma split_at_last:
  "c \<in> set s \<Longrightarrow> \<exists>base ext. s = base @ c # ext \<and> c \<notin> set ext"
  by (metis split_list_last)

lemma getAt_prefix:
  "i < length text \<Longrightarrow> getAt text 0 (int i) = Inr (take (Suc i) text)"
  by (simp add: getAt_def substring_def Let_def nat_add_distrib)

lemma getAt_whole:
  "text \<noteq> [] \<Longrightarrow> getAt text 0 (- 1) = Inr text"
  by (cases "text") (simp_all add: getAt_def substring_def Let_def)

lemma getAt_butlast:
  "2 \<le> length text \<Longrightarrow> getAt text 0 (- 2) = Inr (butlast text)"
  by (cases "text") (auto simp add: getAt_def substring_def Let_def butlast_conv_take nat_diff_distrib)

lemma mapper_with_dot:
  assumes "CHR ''.'' \<notin> set ext"
  shows "getAt (base @ CHR ''.'' # ext) 0 (lastIndexOf (base @ CHR ''.'' # ext) CHR ''.'') = Inr (base @ ''.'')"
proof -
  have "lastIndexOf (base @ CHR ''.'' # ext) CHR ''.'' = int (length base)"
    using assms by (rule lastIndexOf_append)
  moreover have "getAt (base @ CHR ''.'' # ext) 0 (int (length base)) = Inr (take (Suc (length base)) (base @ CHR ''.'' # ext))"
    by (rule getAt_prefix) simp
  ultimately show ?thesis by simp
qed

subsection \<open>The skeleton computes the three tasks\<close>

lemma andThen_simps [simp]:
  "andThen (Ok w) f = f w"
  "andThen (Threw e w) f = Threw e w"
  by (simp_all add: andThen_def)

lemma andThen_Ok [simp]: "andThen r Ok = r"
  by (cases r) simp_all

lemma runAll_Nil [simp]: "runAll env exe [] = Ok"
  by (rule ext) simp

lemma runAll_Cons:
  "runAll env exe (a # as) = (\<lambda>w. andThen (project_exec env exe a w) (runAll env exe as))"
  by (rule ext) simp

lemma process_Material: "MaterialCompiler_outOfDate env t = process Material env t"
  by (intro ext)
     (simp add: MaterialCompiler_outOfDate_def process_def header_def commands_def Let_def
           split: sum.splits)

lemma process_Ibl: "IblGenerator_outOfDate env t = process Ibl env t"
  by (intro ext)
     (simp add: IblGenerator_outOfDate_def process_def header_def commands_def Let_def runAll_Cons)

lemma process_Mesh: "MeshCompiler_outOfDate env t = process Mesh env t"
  by (intro ext)
     (simp add: MeshCompiler_outOfDate_def process_def header_def commands_def Let_def
           split: sum.splits)

lemma removed_Material:
  "MaterialCompiler_removed env t = deleteMapped (getOutputFile Material t) env"
  by (intro ext) (simp add: MaterialCompiler_removed_def deleteMapped_def getOutputFile_def)

lemma removed_Ibl:
  "IblGenerator_removed env t = deleteMapped (getOutputFile Ibl t) env"
  by (intro ext) (simp add: IblGenerator_removed_def deleteMapped_def getOutputFile_def)

lemma removed_Mesh:
  "MeshCompiler_removed env t = deleteMapped (getOutputFile Mesh t) env"
  by (intro ext) (simp add: MeshCompiler_removed_def deleteMapped_def getOutputFile_def)

lemma execute_engine: "execute k env t inputs w = engine k env t inputs w"
proof (cases k)
  case Material
  then show ?thesis
    by (simp add: execute_def engine_def clean_def pattern_def MaterialCompiler_execute_def
        process_Material removed_Material)
next
  case Ibl
  then show ?thesis
    by (simp add: execute_def engine_def clean_def pattern_def IblGenerator_execute_def
        process_Ibl removed_Ibl)
next
  case Mesh
  then show ?thesis
    by (simp add: execute_def engine_def clean_def pattern_def MeshCompiler_execute_def
        process_Mesh removed_Mesh)
qed

lemma execsOf_append [simp]: "execsOf (xs @ ys) = execsOf xs @ execsOf ys"
  by (induction xs rule: execsOf.induct) simp_all

lemma deletesOf_append [simp]: "deletesOf (xs @ ys) = deletesOf xs @ deletesOf ys"
  by (induction xs rule: deletesOf.induct) simp_all

lemma project_exec_ok:
  assumes "fileExists env exe" and "toolExit env exe a = 0"
  shows "project_exec env exe a w =
           Ok (w\<lparr>files := toolEffect env exe a (files w), trace := trace w @ [Exec exe a 0]\<rparr>)"
  using assms by (simp add: project_exec_def Let_def)

lemma project_exec_fail:
  assumes "fileExists env exe" and "toolExit env exe a \<noteq> 0"
  shows "project_exec env exe a w =
           Threw (ExecException exe (toolExit env exe a))
             (w\<lparr>files := toolEffect env exe a (files w),
                trace := trace w @ [Exec exe a (toolExit env exe a)]\<rparr>)"
  using assms by (simp add: project_exec_def Let_def)

lemma project_exec_missing:
  assumes "\<not> fileExists env exe"
  shows "project_exec env exe a w = Threw (ExecStartException exe) w"
  using assms by (simp add: project_exec_def)

lemma runAll_ok:
  assumes "fileExists env exe" and "list_all (\<lambda>a. toolExit env exe a = 0) cs"
  shows "\<exists>w'. runAll env exe cs w = Ok w'
           \<and> execsOf (trace w') = execsOf (trace w) @ map (Pair exe) cs
           \<and> deletesOf (trace w') = deletesOf (trace w)"
  using assms(2)
proof (induction cs arbitrary: w)
  case Nil
  then show ?case by simp
next
  case (Cons a cs)
  let ?w1 = "w\<lparr>files := toolEffect env exe a (files w), trace := trace w @ [Exec exe a 0]\<rparr>"
  from Cons.prems have a: "toolExit env exe a = 0" and cs: "list_all (\<lambda>a. toolExit env exe a = 0) cs"
    by simp_all
  from Cons.IH [OF cs, of ?w1] obtain w' where
    "runAll env exe cs ?w1 = Ok w'"
    "execsOf (trace w') = execsOf (trace ?w1) @ map (Pair exe) cs"
    "deletesOf (trace w') = deletesOf (trace ?w1)"
    by (elim exE conjE)
  then show ?case
    by (simp add: project_exec_ok [OF assms(1) a])
qed

lemma runAll_fail:
  assumes "fileExists env exe" and "list_all (\<lambda>a. toolExit env exe a = 0) cs1"
    and "toolExit env exe c \<noteq> 0"
  shows "\<exists>w'. runAll env exe (cs1 @ c # cs2) w = Threw (ExecException exe (toolExit env exe c)) w'
           \<and> execsOf (trace w') = execsOf (trace w) @ map (Pair exe) (cs1 @ [c])
           \<and> deletesOf (trace w') = deletesOf (trace w)"
  using assms(2)
proof (induction cs1 arbitrary: w)
  case Nil
  then show ?case by (simp add: project_exec_fail [OF assms(1) assms(3)])
next
  case (Cons a cs)
  let ?w1 = "w\<lparr>files := toolEffect env exe a (files w), trace := trace w @ [Exec exe a 0]\<rparr>"
  from Cons.prems have a: "toolExit env exe a = 0" and cs: "list_all (\<lambda>a. toolExit env exe a = 0) cs"
    by simp_all
  from Cons.IH [OF cs, of ?w1] obtain w' where
    "runAll env exe (cs @ c # cs2) ?w1 = Threw (ExecException exe (toolExit env exe c)) w'"
    "execsOf (trace w') = execsOf (trace ?w1) @ map (Pair exe) (cs @ [c])"
    "deletesOf (trace w') = deletesOf (trace ?w1)"
    by (elim exE conjE)
  then show ?case
    by (simp add: project_exec_ok [OF assms(1) a])
qed

lemma process_ok:
  assumes "succeeds k env t f"
  shows "\<exists>w'. process k env t f w = Ok w'
           \<and> execsOf (trace w') = execsOf (trace w) @ invocations k t f
           \<and> deletesOf (trace w') = deletesOf (trace w)"
proof -
  from assms obtain cs where cs: "commands k t f = Inr cs"
    and ex: "fileExists env (toolPath t)"
    and ok: "list_all (\<lambda>a. toolExit env (toolPath t) a = 0) cs"
    by (auto simp add: succeeds_def split: sum.splits)
  let ?w1 = "LogOutputStream_flush LIFECYCLE (header k f) w"
  from runAll_ok [OF ex ok, of ?w1] obtain w' where
    "runAll env (toolPath t) cs ?w1 = Ok w'"
    "execsOf (trace w') = execsOf (trace ?w1) @ map (Pair (toolPath t)) cs"
    "deletesOf (trace w') = deletesOf (trace ?w1)"
    by (elim exE conjE)
  then show ?thesis
    by (simp add: process_def invocations_def cs LogOutputStream_flush_def)
qed

lemma process_fail:
  assumes cs: "commands k t f = Inr (cs1 @ c # cs2)"
    and ex: "fileExists env (toolPath t)"
    and ok: "list_all (\<lambda>a. toolExit env (toolPath t) a = 0) cs1"
    and c: "toolExit env (toolPath t) c \<noteq> 0"
  shows "\<exists>w'. process k env t f w = Threw (ExecException (toolPath t) (toolExit env (toolPath t) c)) w'
           \<and> execsOf (trace w') = execsOf (trace w) @ map (Pair (toolPath t)) (cs1 @ [c])
           \<and> deletesOf (trace w') = deletesOf (trace w)
           \<and> Logged LIFECYCLE (header k f) \<in> set (trace w')"
proof -
  let ?w1 = "LogOutputStream_flush LIFECYCLE (header k f) w"
  from runAll_fail [OF ex ok c, of cs2 ?w1] obtain w' where
    r: "runAll env (toolPath t) (cs1 @ c # cs2) ?w1
          = Threw (ExecException (toolPath t) (toolExit env (toolPath t) c)) w'"
    and e: "execsOf (trace w') = execsOf (trace ?w1) @ map (Pair (toolPath t)) (cs1 @ [c])"
    and d: "deletesOf (trace w') = deletesOf (trace ?w1)"
    by (elim exE conjE)
  have sub: "set (trace w1) \<subseteq> set (trace (worldOf (runAll env exe cs w1)))" for exe cs w1
  proof (induction cs arbitrary: w1)
    case Nil
    then show ?case by (simp add: worldOf_def)
  next
    case (Cons a cs)
    show ?case
    proof (cases "project_exec env exe a w1")
      case (Ok w2)
      then have "set (trace w1) \<subseteq> set (trace w2)"
        by (auto simp add: project_exec_def Let_def split: if_splits)
      with Cons [of w2] Ok show ?thesis by auto
    next
      case (Threw e w2)
      then have "set (trace w1) \<subseteq> set (trace w2)"
        by (auto simp add: project_exec_def Let_def split: if_splits)
      with Threw show ?thesis by (simp add: worldOf_def)
    qed
  qed
  from sub [of ?w1 "toolPath t" "cs1 @ c # cs2"] r
  have "Logged LIFECYCLE (header k f) \<in> set (trace w')"
    by (auto simp add: worldOf_def LogOutputStream_flush_def)
  with r e d show ?thesis
    by (simp add: process_def cs LogOutputStream_flush_def)
qed

lemma forEach_append:
  "forEach act (xs @ ys) w = andThen (forEach act xs w) (forEach act ys)"
  by (induction xs arbitrary: w) (simp_all split: outcome.splits)

lemma forEach_process_ok:
  assumes "list_all (succeeds k env t) fs"
  shows "\<exists>w'. forEach (process k env t) fs w = Ok w'
           \<and> execsOf (trace w') = execsOf (trace w) @ concat (map (invocations k t) fs)
           \<and> deletesOf (trace w') = deletesOf (trace w)"
  using assms
proof (induction fs arbitrary: w)
  case Nil
  then show ?case by simp
next
  case (Cons f fs)
  from Cons.prems have f: "succeeds k env t f" and fs: "list_all (succeeds k env t) fs"
    by simp_all
  from process_ok [OF f, of w] obtain w1 where
    p: "process k env t f w = Ok w1"
    and e1: "execsOf (trace w1) = execsOf (trace w) @ invocations k t f"
    and d1: "deletesOf (trace w1) = deletesOf (trace w)"
    by (elim exE conjE)
  from Cons.IH [OF fs, of w1] obtain w' where
    "forEach (process k env t) fs w1 = Ok w'"
    "execsOf (trace w') = execsOf (trace w1) @ concat (map (invocations k t) fs)"
    "deletesOf (trace w') = deletesOf (trace w1)"
    by (elim exE conjE)
  with p e1 d1 show ?case by simp
qed

subsection \<open>Patterns and clean-up\<close>

lemma glob_any: "glob ''*'' s"
  by (induction s) simp_all

lemma glob_literal:
  "CHR ''*'' \<notin> set lit \<Longrightarrow> CHR ''?'' \<notin> set lit \<Longrightarrow> glob lit s = (s = lit)"
proof (induction lit arbitrary: s)
  case Nil
  then show ?case by simp
next
  case (Cons p ps)
  then show ?case by (cases s) auto
qed

lemma glob_star: "glob (CHR ''*'' # ps) s = (\<exists>a b. s = a @ b \<and> glob ps b)"
proof (induction s)
  case Nil
  then show ?case by simp
next
  case (Cons c cs)
  have "(\<exists>a b. c # cs = a @ b \<and> glob ps b) = (glob ps (c # cs) \<or> (\<exists>a b. cs = a @ b \<and> glob ps b))"
    by (auto simp add: Cons_eq_append_conv)
  with Cons show ?case by simp
qed

lemma glob_star_literal:
  assumes "CHR ''*'' \<notin> set lit" and "CHR ''?'' \<notin> set lit"
  shows "glob (CHR ''*'' # lit) s = suffix lit s"
  by (simp add: glob_star glob_literal [OF assms] suffix_def)

lemma pattern_Material: "glob (pattern Material) n = suffix ''.filamat'' n"
proof -
  have "glob (CHR ''*'' # ''.filamat'') n = suffix ''.filamat'' n"
    by (rule glob_star_literal) simp_all
  then show ?thesis by (simp add: pattern_def)
qed

lemma pattern_Mesh: "glob (pattern Mesh) n = suffix ''.filamesh'' n"
proof -
  have "glob (CHR ''*'' # ''.filamesh'') n = suffix ''.filamesh'' n"
    by (rule glob_star_literal) simp_all
  then show ?thesis by (simp add: pattern_def)
qed

lemma pattern_Ibl: "glob (pattern Ibl) n"
  by (simp add: pattern_def glob_any)

lemma project_delete_ok:
  "project_delete env fs w = Ok w' \<Longrightarrow>
     set (files w') = set (files w) - set fs \<and> execsOf (trace w') = execsOf (trace w)"
proof (induction fs arbitrary: w)
  case Nil
  then show ?case by simp
next
  case (Cons f fs)
  show ?case
  proof (cases "deletable env f")
    case True
    let ?w1 = "w\<lparr>files := removeAll f (files w), trace := trace w @ [Delete f True]\<rparr>"
    from Cons.prems True have "project_delete env fs ?w1 = Ok w'" by simp
    from Cons.IH [OF this] show ?thesis by (auto simp add: execsOf_append)
  next
    case False
    with Cons.prems show ?thesis by simp
  qed
qed

lemma project_delete_threw:
  "project_delete env fs w = Threw e w' \<Longrightarrow> execsOf (trace w') = execsOf (trace w)"
proof (induction fs arbitrary: w)
  case Nil
  then show ?case by simp
next
  case (Cons f fs)
  show ?case
  proof (cases "deletable env f")
    case True
    let ?w1 = "w\<lparr>files := removeAll f (files w), trace := trace w @ [Delete f True]\<rparr>"
    from Cons.prems True have "project_delete env fs ?w1 = Threw e w'" by simp
    from Cons.IH [OF this] show ?thesis by (simp add: execsOf_append)
  next
    case False
    with Cons.prems show ?thesis by (auto simp add: execsOf_append)
  qed
qed

lemma project_delete_total:
  "list_all (deletable env) fs \<Longrightarrow> \<exists>w'. project_delete env fs w = Ok w'"
  by (induction fs arbitrary: w) simp_all

subsection \<open>The removal of mapped outputs\<close>

lemma File_delete_facts:
  "execsOf (trace (snd (File_delete env out w))) = execsOf (trace w)"
  "set (files (snd (File_delete env out w))) \<subseteq> set (files w)"
  "deletesOf (trace (snd (File_delete env out w)))
     = deletesOf (trace w) @ [(out, fst (File_delete env out w))]"
  "deletable env out \<Longrightarrow> \<not> list_ex (under out) (files w)
     \<Longrightarrow> out \<notin> set (files (snd (File_delete env out w)))"
  "\<not> deletable env out \<Longrightarrow> files (snd (File_delete env out w)) = files w"
  "list_ex (under out) (files w) \<Longrightarrow> fst (File_delete env out w) = False"
  by (auto simp add: File_delete_def)

lemma list_ex_subset:
  "set xs \<subseteq> set ys \<Longrightarrow> list_ex P xs \<Longrightarrow> list_ex P ys"
  by (auto simp add: list_ex_iff)

lemma removed_phase:
  assumes "\<forall>x\<in>set rs. \<exists>out. mapper x = Inr out"
  shows "\<exists>w'. forEach (deleteMapped mapper env) rs w = Ok w'
           \<and> execsOf (trace w') = execsOf (trace w)
           \<and> set (files w') \<subseteq> set (files w)
           \<and> set (deletesOf (trace w)) \<subseteq> set (deletesOf (trace w'))
           \<and> (\<forall>x\<in>set rs. \<forall>out. mapper x = Inr out \<longrightarrow>
                 (\<exists>ok. (out, ok) \<in> set (deletesOf (trace w')))
                 \<and> (deletable env out \<and> \<not> list_ex (under out) (files w)
                      \<longrightarrow> out \<notin> set (files w'))
                 \<and> (list_ex (under out) (files w')
                      \<longrightarrow> (out, False) \<in> set (deletesOf (trace w'))))"
  using assms
proof (induction rs arbitrary: w)
  case Nil
  then show ?case by simp
next
  case (Cons r rs)
  from Cons.prems obtain out where out: "mapper r = Inr out" by auto
  let ?w1 = "snd (File_delete env out w)"
  have step: "deleteMapped mapper env r w = Ok ?w1"
    by (simp add: deleteMapped_def out)
  from Cons.prems have "\<forall>x\<in>set rs. \<exists>out. mapper x = Inr out" by simp
  from Cons.IH [OF this, of ?w1] obtain w' where
    run: "forEach (deleteMapped mapper env) rs ?w1 = Ok w'"
    and ex: "execsOf (trace w') = execsOf (trace ?w1)"
    and fs: "set (files w') \<subseteq> set (files ?w1)"
    and ds: "set (deletesOf (trace ?w1)) \<subseteq> set (deletesOf (trace w'))"
    and rest: "\<forall>x\<in>set rs. \<forall>out. mapper x = Inr out \<longrightarrow>
                 (\<exists>ok. (out, ok) \<in> set (deletesOf (trace w')))
                 \<and> (deletable env out \<and> \<not> list_ex (under out) (files ?w1)
                      \<longrightarrow> out \<notin> set (files w'))
                 \<and> (list_ex (under out) (files w')
                      \<longrightarrow> (out, False) \<in> set (deletesOf (trace w')))"
    by (elim exE conjE)
  have s1: "set (files ?w1) \<subseteq> set (files w)"
    by (rule File_delete_facts(2))
  have a: "forEach (deleteMapped mapper env) (r # rs) w = Ok w'"
    by (simp add: step run)
  have b: "execsOf (trace w') = execsOf (trace w)"
    by (simp add: ex File_delete_facts(1))
  have c: "set (files w') \<subseteq> set (files w)"
    using fs s1 by blast
  have d1: "set (deletesOf (trace ?w1)) = insert (out, fst (File_delete env out w)) (set (deletesOf (trace w)))"
    by (simp add: File_delete_facts(3))
  have d: "set (deletesOf (trace w)) \<subseteq> set (deletesOf (trace w'))"
    using ds d1 by blast
  have e1: "\<exists>ok. (out, ok) \<in> set (deletesOf (trace w'))"
    using ds d1 by blast
  have e2: "deletable env out \<and> \<not> list_ex (under out) (files w) \<longrightarrow> out \<notin> set (files w')"
    using fs File_delete_facts(4) [of env out w] by blast
  have e3: "list_ex (under out) (files w') \<longrightarrow> (out, False) \<in> set (deletesOf (trace w'))"
  proof
    assume "list_ex (under out) (files w')"
    then have "list_ex (under out) (files w)" using c by (rule list_ex_subset [rotated])
    then have "fst (File_delete env out w) = False" by (rule File_delete_facts(6))
    with d1 ds show "(out, False) \<in> set (deletesOf (trace w'))" by auto
  qed
  have r1: "deletable env o2 \<and> \<not> list_ex (under o2) (files w) \<longrightarrow> o2 \<notin> set (files w')"
    if "x \<in> set rs" "mapper x = Inr o2" for x o2
  proof
    assume h: "deletable env o2 \<and> \<not> list_ex (under o2) (files w)"
    then have "\<not> list_ex (under o2) (files ?w1)"
      using s1 list_ex_subset [of "files ?w1" "files w" "under o2"] by blast
    with h rest that show "o2 \<notin> set (files w')" by blast
  qed
  have e: "\<forall>x\<in>set (r # rs). \<forall>out. mapper x = Inr out \<longrightarrow>
                 (\<exists>ok. (out, ok) \<in> set (deletesOf (trace w')))
                 \<and> (deletable env out \<and> \<not> list_ex (under out) (files w)
                      \<longrightarrow> out \<notin> set (files w'))
                 \<and> (list_ex (under out) (files w')
                      \<longrightarrow> (out, False) \<in> set (deletesOf (trace w')))"
    using rest e1 e2 e3 r1 out by auto
  from a b c d e show ?case by blast
qed

lemma removed_phase_execs:
  "execsOf (trace (worldOf (forEach (deleteMapped mapper env) rs w))) = execsOf (trace w)"
proof (induction rs arbitrary: w)
  case Nil
  then show ?case by (simp add: worldOf_def)
next
  case (Cons r rs)
  show ?case
  proof (cases "mapper r")
    case (Inl e)
    then show ?thesis by (simp add: deleteMapped_def worldOf_def)
  next
    case (Inr out)
    then show ?thesis
      using Cons [of "snd (File_delete env out w)"]
      by (simp add: deleteMapped_def File_delete_facts(1))
  qed
qed

subsection \<open>Whole runs\<close>

lemma clean_incremental: "incremental inputs \<Longrightarrow> clean k env t inputs w = Ok w"
  by (simp add: clean_def)

lemma engine_run_ok:
  assumes cl: "clean k env t inputs w = Ok w1"
    and ok: "list_all (succeeds k env t) (outOfDate inputs)"
    and m: "\<forall>x\<in>set (removed inputs). \<exists>out. getOutputFile k t x = Inr out"
  shows "\<exists>w2 w'. forEach (process k env t) (outOfDate inputs) w1 = Ok w2
           \<and> execute k env t inputs w = Ok w'
           \<and> execsOf (trace w') = execsOf (trace w1) @ concat (map (invocations k t) (outOfDate inputs))
           \<and> (\<forall>x\<in>set (removed inputs). \<forall>out. getOutputFile k t x = Inr out \<longrightarrow>
                 (\<exists>ok. (out, ok) \<in> set (deletesOf (trace w')))
                 \<and> (deletable env out \<and> \<not> list_ex (under out) (files w2)
                      \<longrightarrow> out \<notin> set (files w'))
                 \<and> (list_ex (under out) (files w')
                      \<longrightarrow> (out, False) \<in> set (deletesOf (trace w'))))"
proof -
  from forEach_process_ok [OF ok, of w1] obtain w2 where
    p: "forEach (process k env t) (outOfDate inputs) w1 = Ok w2"
    and e2: "execsOf (trace w2) = execsOf (trace w1) @ concat (map (invocations k t) (outOfDate inputs))"
    by (elim exE conjE)
  from removed_phase [OF m, of env w2] obtain w' where
    r: "forEach (deleteMapped (getOutputFile k t) env) (removed inputs) w2 = Ok w'"
    and e3: "execsOf (trace w') = execsOf (trace w2)"
    and d: "\<forall>x\<in>set (removed inputs). \<forall>out. getOutputFile k t x = Inr out \<longrightarrow>
                 (\<exists>ok. (out, ok) \<in> set (deletesOf (trace w')))
                 \<and> (deletable env out \<and> \<not> list_ex (under out) (files w2)
                      \<longrightarrow> out \<notin> set (files w'))
                 \<and> (list_ex (under out) (files w')
                      \<longrightarrow> (out, False) \<in> set (deletesOf (trace w')))"
    by (elim exE conjE)
  have "execute k env t inputs w = Ok w'"
    by (simp add: execute_engine engine_def cl p r)
  with p e2 e3 d show ?thesis by simp
qed

lemma engine_abort:
  assumes cl: "clean k env t inputs w = Ok w1"
    and s: "outOfDate inputs = pre @ bad # post"
    and p: "list_all (succeeds k env t) pre"
    and cs: "commands k t bad = Inr (cs1 @ c # cs2)"
    and ex: "fileExists env (toolPath t)"
    and ok1: "list_all (\<lambda>a. toolExit env (toolPath t) a = 0) cs1"
    and c: "toolExit env (toolPath t) c \<noteq> 0"
  shows "\<exists>w'. execute k env t inputs w
                = Threw (ExecException (toolPath t) (toolExit env (toolPath t) c)) w'
           \<and> execsOf (trace w') = execsOf (trace w1) @ concat (map (invocations k t) pre)
                                   @ map (Pair (toolPath t)) (cs1 @ [c])
           \<and> deletesOf (trace w') = deletesOf (trace w1)
           \<and> Logged LIFECYCLE (header k bad) \<in> set (trace w')"
proof -
  from forEach_process_ok [OF p, of w1] obtain w2 where
    f: "forEach (process k env t) pre w1 = Ok w2"
    and e2: "execsOf (trace w2) = execsOf (trace w1) @ concat (map (invocations k t) pre)"
    and d2: "deletesOf (trace w2) = deletesOf (trace w1)"
    by (elim exE conjE)
  from process_fail [OF cs ex ok1 c, of w2] obtain w' where
    b: "process k env t bad w2 = Threw (ExecException (toolPath t) (toolExit env (toolPath t) c)) w'"
    and e3: "execsOf (trace w') = execsOf (trace w2) @ map (Pair (toolPath t)) (cs1 @ [c])"
    and d3: "deletesOf (trace w') = deletesOf (trace w2)"
    and l: "Logged LIFECYCLE (header k bad) \<in> set (trace w')"
    by (elim exE conjE)
  have "forEach (process k env t) (outOfDate inputs) w1
          = Threw (ExecException (toolPath t) (toolExit env (toolPath t) c)) w'"
    unfolding s forEach_append by (simp add: f b)
  then have "execute k env t inputs w
          = Threw (ExecException (toolPath t) (toolExit env (toolPath t) c)) w'"
    by (simp add: execute_engine engine_def cl)
  with e2 e3 d2 d3 l show ?thesis by simp
qed

subsection \<open>The Output Mappers\<close>

text \<open>
  C2: an input name that contains a dot splits at its last dot into a base name and an
  extension; the material mapper returns the one path in the output directory made of
  the base name and \<open>.filamat\<close>, the mesh mapper the one made of the base name and
  \<open>.filamesh\<close>.
\<close>

theorem C2_extension_replaced:
  assumes "CHR ''.'' \<in> set (name file)"
  shows "\<exists>base ext. name file = base @ ''.'' @ ext \<and> CHR ''.'' \<notin> set ext
           \<and> MaterialCompiler_getOutputFile t file = Inr (File (outputDir t) (base @ ''.filamat''))
           \<and> MeshCompiler_getOutputFile t file = Inr (File (outputDir t) (base @ ''.filamesh''))"
proof -
  from split_at_last [OF assms] obtain base ext
    where n: "name file = base @ CHR ''.'' # ext" and e: "CHR ''.'' \<notin> set ext"
    by (elim exE conjE)
  have g: "getAt (name file) 0 (lastIndexOf (name file) CHR ''.'') = Inr (base @ ''.'')"
    unfolding n using e by (rule mapper_with_dot)
  have m: "MaterialCompiler_getOutputFile t file = Inr (File (outputDir t) (base @ ''.filamat''))"
    unfolding MaterialCompiler_getOutputFile_def g by simp
  have h: "MeshCompiler_getOutputFile t file = Inr (File (outputDir t) (base @ ''.filamesh''))"
    unfolding MeshCompiler_getOutputFile_def g by simp
  have n': "name file = base @ ''.'' @ ext" unfolding n by simp
  show ?thesis
    by (rule exI [of _ base], rule exI [of _ ext]) (intro conjI n' e m h)
qed

theorem C2_extension_replaced_witness:
  "CHR ''.'' \<in> set (name (File ''in'' ''a.mat''))
   \<and> (\<exists>base ext. ''a.mat'' = base @ ''.'' @ ext \<and> CHR ''.'' \<notin> set ext
         \<and> MaterialCompiler_getOutputFile \<lparr>toolPath = ''matc'', outputDir = ''out'', outputDirAbsolutePath = ''/work/out''\<rparr>
              (File ''in'' ''a.mat'') = Inr (File ''out'' (base @ ''.filamat''))
         \<and> MeshCompiler_getOutputFile \<lparr>toolPath = ''matc'', outputDir = ''out'', outputDirAbsolutePath = ''/work/out''\<rparr>
              (File ''in'' ''a.mat'') = Inr (File ''out'' (base @ ''.filamesh'')))"
proof -
  have d: "CHR ''.'' \<in> set (name (File ''in'' ''a.mat''))" by simp
  from C2_extension_replaced [OF d, of "\<lparr>toolPath = ''matc'', outputDir = ''out'', outputDirAbsolutePath = ''/work/out''\<rparr>"] d
  show ?thesis by simp
qed

text \<open>
  C3: on the one-character name \<open>a\<close>, which has no dot, the IBL mapper takes
  \<open>name[0..-2]\<close> and raises, where the material and the mesh mapper return a path.
\<close>

theorem C3_ibl_mapper_raises:
  "IblGenerator_getOutputFile t (File d ''a'') = Inl StringIndexOutOfBoundsException
   \<and> MaterialCompiler_getOutputFile t (File d ''a'') = Inr (File (outputDir t) ''afilamat'')
   \<and> MeshCompiler_getOutputFile t (File d ''a'') = Inr (File (outputDir t) ''afilamesh'')"
  by (simp add: IblGenerator_getOutputFile_def MaterialCompiler_getOutputFile_def
      MeshCompiler_getOutputFile_def getAt_def substring_def Let_def)

lemma butlast_neq: "s \<noteq> [] \<Longrightarrow> butlast s \<noteq> s"
  by (cases s rule: rev_cases) simp_all

text \<open>
  C10: on a non-empty input name without a dot the material and the mesh mapper append
  \<open>filamat\<close> and \<open>filamesh\<close> to the whole name, with no dot between; the IBL
  mapper, for a name of at least two characters, returns the name without its last
  character, which is not the name the other two keep.
\<close>

theorem C10_extensionless_names:
  assumes "name file \<noteq> []" and "CHR ''.'' \<notin> set (name file)"
  shows "MaterialCompiler_getOutputFile t file = Inr (File (outputDir t) (name file @ ''filamat''))
       \<and> MeshCompiler_getOutputFile t file = Inr (File (outputDir t) (name file @ ''filamesh''))
       \<and> (2 \<le> length (name file) \<longrightarrow>
            IblGenerator_getOutputFile t file = Inr (File (outputDir t) (butlast (name file)))
            \<and> butlast (name file) \<noteq> name file)"
proof -
  have l: "lastIndexOf (name file) CHR ''.'' = - 1"
    using assms(2) by (rule lastIndexOf_absent)
  have w: "getAt (name file) 0 (- 1) = Inr (name file)"
    using assms(1) by (rule getAt_whole)
  have m: "MaterialCompiler_getOutputFile t file = Inr (File (outputDir t) (name file @ ''filamat''))"
    unfolding MaterialCompiler_getOutputFile_def l w by simp
  have h: "MeshCompiler_getOutputFile t file = Inr (File (outputDir t) (name file @ ''filamesh''))"
    unfolding MeshCompiler_getOutputFile_def l w by simp
  have i: "IblGenerator_getOutputFile t file = Inr (File (outputDir t) (butlast (name file)))"
    if "2 \<le> length (name file)"
  proof -
    have "getAt (name file) 0 (- 1 - 1) = Inr (butlast (name file))"
      using getAt_butlast [OF that] by simp
    then show ?thesis unfolding IblGenerator_getOutputFile_def l by simp
  qed
  have b: "butlast (name file) \<noteq> name file"
    using assms(1) by (rule butlast_neq)
  show ?thesis using m h i b by simp
qed

theorem C10_extensionless_names_witness:
  "MaterialCompiler_getOutputFile \<lparr>toolPath = ''matc'', outputDir = ''out'', outputDirAbsolutePath = ''/work/out''\<rparr> (File ''in'' ''mesh'') = Inr (File ''out'' ''meshfilamat'')
   \<and> MeshCompiler_getOutputFile \<lparr>toolPath = ''matc'', outputDir = ''out'', outputDirAbsolutePath = ''/work/out''\<rparr> (File ''in'' ''mesh'') = Inr (File ''out'' ''meshfilamesh'')
   \<and> IblGenerator_getOutputFile \<lparr>toolPath = ''matc'', outputDir = ''out'', outputDirAbsolutePath = ''/work/out''\<rparr> (File ''in'' ''mesh'') = Inr (File ''out'' ''mes'')"
  using C10_extensionless_names [of "File ''in'' ''mesh''" "\<lparr>toolPath = ''matc'', outputDir = ''out'', outputDirAbsolutePath = ''/work/out''\<rparr>"]
  by simp

subsection \<open>Failures of the tool\<close>

text \<open>
  C1, as stated, fails: \<open>matc\<close> exits with status 1 on \<open>bad.mat\<close>, the first of
  two changed inputs.  The run ends there with the exception; \<open>good.mat\<close>, on which
  the tool would exit with 0, is never handed to the tool.
\<close>

theorem C1_counterexample:
  "MaterialCompiler_execute exampleEnv exampleTask
     \<lparr>incremental = True, outOfDate = [File ''in'' ''bad.mat'', File ''in'' ''good.mat''], removed = []\<rparr>
     exampleWorld
   = Threw (ExecException ''tools/bin/matc'' 1)
       \<lparr>files = [File ''out'' ''c.filamat'', File ''out'' ''d.filamat''],
        trace = [Logged LIFECYCLE (''Compiling material in/bad.mat'' @ [CHR 0x0A]),
                 Exec ''tools/bin/matc''
                   [''-O'', ''-p'', ''mobile'', ''-o'', ''out/bad.filamat'', ''in/bad.mat''] 1]\<rparr>
   \<and> toolExit exampleEnv ''tools/bin/matc''
        [''-O'', ''-p'', ''mobile'', ''-o'', ''out/good.filamat'', ''in/good.mat''] = 0"
  by (simp add: MaterialCompiler_execute_def MaterialCompiler_outOfDate_def
      MaterialCompiler_getOutputFile_def getAt_def substring_def Let_def toString_def
      LogOutputStream_flush_def project_exec_def exampleEnv_def exampleTask_def exampleWorld_def)

lemma commands_good:
  "commands Material exampleTask (File ''in'' ''good.mat'')
     = Inr [[''-O'', ''-p'', ''mobile'', ''-o'', ''out/good.filamat'', ''in/good.mat'']]"
  by (simp add: commands_def MaterialCompiler_getOutputFile_def getAt_def substring_def
      Let_def toString_def exampleTask_def)

lemma commands_bad:
  "commands Material exampleTask (File ''in'' ''bad.mat'')
     = Inr [[''-O'', ''-p'', ''mobile'', ''-o'', ''out/bad.filamat'', ''in/bad.mat'']]"
  by (simp add: commands_def MaterialCompiler_getOutputFile_def getAt_def substring_def
      Let_def toString_def exampleTask_def)

lemma succeeds_good: "succeeds Material exampleEnv exampleTask (File ''in'' ''good.mat'')"
  by (simp add: succeeds_def commands_good) (simp add: exampleEnv_def exampleTask_def)

text \<open>
  C1, amended: when the tool exits with a status other than zero on a command of a
  changed input, after the commands before it and all the changed inputs before it have
  succeeded, the run is aborted there.  Its outcome is the exception naming the tool and
  the exit status; the tool has been invoked for the inputs before the failing one and up
  to the failing command, and for nothing after it; no output of a removed input has been
  deleted.
\<close>

theorem C1_run_stops_at_first_failure:
  assumes "clean k env t inputs w = Ok w1"
    and "outOfDate inputs = pre @ bad # post"
    and "list_all (succeeds k env t) pre"
    and "commands k t bad = Inr (cs1 @ c # cs2)"
    and "fileExists env (toolPath t)"
    and "list_all (\<lambda>a. toolExit env (toolPath t) a = 0) cs1"
    and "toolExit env (toolPath t) c \<noteq> 0"
  shows "\<exists>w'. execute k env t inputs w
                = Threw (ExecException (toolPath t) (toolExit env (toolPath t) c)) w'
           \<and> execsOf (trace w') = execsOf (trace w1) @ concat (map (invocations k t) pre)
                                   @ map (Pair (toolPath t)) (cs1 @ [c])
           \<and> deletesOf (trace w') = deletesOf (trace w1)"
  using engine_abort [OF assms] by blast

theorem C1_run_stops_at_first_failure_witness:
  "\<exists>w'. execute Material exampleEnv exampleTask
           \<lparr>incremental = True,
            outOfDate = [File ''in'' ''good.mat'', File ''in'' ''bad.mat'', File ''in'' ''late.mat''],
            removed = [File ''in'' ''d.mat'']\<rparr> exampleWorld
          = Threw (ExecException ''tools/bin/matc'' 1) w'
      \<and> execsOf (trace w')
          = [(''tools/bin/matc'', [''-O'', ''-p'', ''mobile'', ''-o'', ''out/good.filamat'', ''in/good.mat'']),
             (''tools/bin/matc'', [''-O'', ''-p'', ''mobile'', ''-o'', ''out/bad.filamat'', ''in/bad.mat''])]
      \<and> deletesOf (trace w') = []"
proof -
  let ?inputs = "\<lparr>incremental = True,
            outOfDate = [File ''in'' ''good.mat'', File ''in'' ''bad.mat'', File ''in'' ''late.mat''],
            removed = [File ''in'' ''d.mat'']\<rparr>"
  let ?c = "[''-O'', ''-p'', ''mobile'', ''-o'', ''out/bad.filamat'', ''in/bad.mat'']"
  have h1: "clean Material exampleEnv exampleTask ?inputs exampleWorld = Ok exampleWorld"
    by (simp add: clean_def)
  have h2: "outOfDate ?inputs = [File ''in'' ''good.mat''] @ File ''in'' ''bad.mat'' # [File ''in'' ''late.mat'']"
    by simp
  have h3: "list_all (succeeds Material exampleEnv exampleTask) [File ''in'' ''good.mat'']"
    by (simp add: succeeds_good)
  have h4: "commands Material exampleTask (File ''in'' ''bad.mat'') = Inr ([] @ ?c # [])"
    by (simp add: commands_bad)
  have h5: "fileExists exampleEnv (toolPath exampleTask)"
    by (simp add: exampleEnv_def exampleTask_def)
  have h6: "list_all (\<lambda>a. toolExit exampleEnv (toolPath exampleTask) a = 0) []"
    by simp
  have h7: "toolExit exampleEnv (toolPath exampleTask) ?c \<noteq> 0"
    by (simp add: exampleEnv_def)
  have t: "toolPath exampleTask = ''tools/bin/matc''" by (simp add: exampleTask_def)
  have r: "toolExit exampleEnv ''tools/bin/matc'' ?c = 1" by (simp add: exampleEnv_def)
  have i: "invocations Material exampleTask (File ''in'' ''good.mat'')
     = [(''tools/bin/matc'', [''-O'', ''-p'', ''mobile'', ''-o'', ''out/good.filamat'', ''in/good.mat''])]"
    by (simp add: invocations_def commands_good t)
  have w: "trace exampleWorld = []" by (simp add: exampleWorld_def)
  from C1_run_stops_at_first_failure [OF h1 h2 h3 h4 h5 h6 h7]
  show ?thesis unfolding t r by (simp add: i w)
qed

subsection \<open>Failures of deletion\<close>

lemma File_delete_refused:
  "\<not> deletable env out \<Longrightarrow> File_delete env out w = (False, w\<lparr>trace := trace w @ [Delete out False]\<rparr>)"
  by (simp add: File_delete_def)

lemma deleteMapped_step:
  "mapper r = Inr out \<Longrightarrow> deleteMapped mapper env r w = Ok (snd (File_delete env out w))"
  by (simp add: deleteMapped_def)

lemma removed_phase_refused:
  assumes "\<forall>x\<in>set rs. \<exists>out. mapper x = Inr out"
    and "forEach (deleteMapped mapper env) rs w = Ok w'"
    and "x \<in> set rs" and "mapper x = Inr out" and "\<not> deletable env out"
  shows "(out, False) \<in> set (deletesOf (trace w'))"
  using assms(1,2,3)
proof (induction rs arbitrary: w)
  case Nil
  then show ?case by simp
next
  case (Cons r rs)
  from Cons.prems(1) obtain o1 where o1: "mapper r = Inr o1" by auto
  let ?w1 = "snd (File_delete env o1 w)"
  from Cons.prems(2) have run: "forEach (deleteMapped mapper env) rs ?w1 = Ok w'"
    using o1 by (simp add: deleteMapped_step [of mapper r o1])
  from Cons.prems(1) have tot: "\<forall>x\<in>set rs. \<exists>out. mapper x = Inr out" by simp
  show ?case
  proof (cases "x = r")
    case True
    with o1 assms(4) have "o1 = out" by simp
    then have "(out, False) \<in> set (deletesOf (trace ?w1))"
      using assms(5) by (simp add: File_delete_refused)
    moreover from removed_phase [OF tot, of env ?w1] run
    have "set (deletesOf (trace ?w1)) \<subseteq> set (deletesOf (trace w'))" by auto
    ultimately show ?thesis by blast
  next
    case False
    with Cons.prems(3) have "x \<in> set rs" by simp
    from Cons.IH [OF tot run this] show ?thesis .
  qed
qed



lemma mapped_c:
  "getOutputFile Material exampleTask (File ''in'' ''c.mat'') = Inr (File ''out'' ''c.filamat'')"
  by (simp add: getOutputFile_def MaterialCompiler_getOutputFile_def getAt_def substring_def
      Let_def exampleTask_def)


subsection \<open>Runs on the delta of the build host\<close>

lemma clean_ok:
  assumes "incremental inputs \<or> list_all (deletable env) (fileTree_matching (outputDir t) (pattern k) w)"
  shows "\<exists>w1. clean k env t inputs w = Ok w1 \<and> execsOf (trace w1) = execsOf (trace w)
           \<and> (\<not> incremental inputs \<longrightarrow>
                 set (files w1) = set (files w) - set (fileTree_matching (outputDir t) (pattern k) w))"
proof (cases "incremental inputs")
  case True
  then show ?thesis by (simp add: clean_def)
next
  case False
  with assms have d: "list_all (deletable env) (fileTree_matching (outputDir t) (pattern k) w)"
    by simp
  from project_delete_total [OF d, of w] obtain w1 where
    p: "project_delete env (fileTree_matching (outputDir t) (pattern k) w) w = Ok w1"
    by (elim exE)
  from project_delete_ok [OF p] p False show ?thesis by (simp add: clean_def)
qed

lemma invocations_Ibl:
  "invocations Ibl t f =
     [(toolPath t, [''-x'', outputDir t, toString f]),
      (toolPath t, [''--format=rgbm'', ''--extract-blur=0.08'', ''--extract='' @ outputDirAbsolutePath t,
                    toString f])]"
  by (simp add: invocations_def commands_def)

lemma succeeds_Ibl:
  "succeeds Ibl env t f =
     (fileExists env (toolPath t)
      \<and> toolExit env (toolPath t) [''-x'', outputDir t, toString f] = 0
      \<and> toolExit env (toolPath t)
           [''--format=rgbm'', ''--extract-blur=0.08'', ''--extract='' @ outputDirAbsolutePath t, toString f] = 0)"
  by (simp add: succeeds_def commands_def)

lemma computeDelta_Some:
  "incremental (computeDelta (Some previous) current)"
  "set (outOfDate (computeDelta (Some previous) current)) \<subseteq> fst ` set current"
  "set (removed (computeDelta (Some previous) current)) = fst ` set previous - fst ` set current"
  by (auto simp add: computeDelta_def)

lemma commands_a:
  "commands Material exampleTask (File ''in'' ''a.mat'')
     = Inr [[''-O'', ''-p'', ''mobile'', ''-o'', ''out/a.filamat'', ''in/a.mat'']]"
  by (simp add: commands_def MaterialCompiler_getOutputFile_def getAt_def substring_def
      Let_def toString_def exampleTask_def)

lemma succeeds_a: "succeeds Material exampleEnv exampleTask (File ''in'' ''a.mat'')"
  by (simp add: succeeds_def commands_a) (simp add: exampleEnv_def exampleTask_def)

lemma mapped_d:
  "getOutputFile Material exampleTask (File ''in'' ''d.mat'') = Inr (File ''out'' ''d.filamat'')"
  by (simp add: getOutputFile_def MaterialCompiler_getOutputFile_def getAt_def substring_def
      Let_def exampleTask_def)

lemma example_delta:
  "computeDelta (Some [(File ''in'' ''b.mat'', 3), (File ''in'' ''d.mat'', 2)])
                [(File ''in'' ''a.mat'', 5), (File ''in'' ''b.mat'', 3)]
   = \<lparr>incremental = True, outOfDate = [File ''in'' ''a.mat''], removed = [File ''in'' ''d.mat'']\<rparr>"
  by (simp add: computeDelta_def)

lemma forEach_Nil: "forEach act [] = Ok"
  by (rule ext) simp

lemma computeDelta_None:
  "computeDelta None current = \<lparr>incremental = False, outOfDate = map fst current, removed = []\<rparr>"
  by (simp add: computeDelta_def)

lemma empty_delta_run:
  assumes "incremental inputs" and "outOfDate inputs = []" and "removed inputs = []"
  shows "execute k env t inputs w = Ok w"
  by (simp add: execute_engine engine_def clean_incremental [OF assms(1)] assms(2,3))

lemma empty_delta_snapshot:
  assumes o: "outOfDate (computeDelta (Some previous) current) = []"
    and r: "removed (computeDelta (Some previous) current) = []"
  shows "map_of current = map_of previous"
proof (rule ext)
  fix f
  from o have o': "\<forall>x\<in>set current. map_of previous (fst x) = Some (snd x)"
    by (auto simp add: computeDelta_def filter_empty_conv)
  from r have r': "fst ` set previous \<subseteq> fst ` set current"
    by (auto simp add: computeDelta_def filter_empty_conv)
  show "map_of current f = map_of previous f"
  proof (cases "map_of current f")
    case None
    then have "f \<notin> fst ` set current" by (simp add: map_of_eq_None_iff)
    with r' have "f \<notin> fst ` set previous" by blast
    then have "map_of previous f = None" by (simp add: map_of_eq_None_iff)
    with None show ?thesis by simp
  next
    case (Some p)
    then have "(f, p) \<in> set current" by (rule map_of_SomeD)
    with o' have "map_of previous f = Some p" by fastforce
    with Some show ?thesis by simp
  qed
qed

lemma same_inputs_delta:
  assumes "distinct (map fst current)"
  shows "computeDelta (Some current) current = \<lparr>incremental = True, outOfDate = [], removed = []\<rparr>"
proof -
  have "filter (\<lambda>(f, p). map_of current f \<noteq> Some p) current = []"
    using assms by (auto simp add: filter_empty_conv)
  moreover have "filter (\<lambda>f. f \<notin> fst ` set current) (remdups (map fst current)) = []"
    by (auto simp add: filter_empty_conv)
  ultimately show ?thesis by (simp add: computeDelta_def)
qed



subsection \<open>The missing tool\<close>

text \<open>
  C8, as stated, fails: on a host that is not Windows with only \<open>matc.exe\<close>
  installed, \<open>getBinaries\<close> finds a binary and does not stop the script, while the
  task is configured with \<open>bin/matc\<close>, which does not exist.  A full rebuild then
  cleans the output directory and logs the header of the first input before the process
  fails to start, and a run without changed inputs ends normally.
\<close>

theorem C8_counterexample:
  "getBinaries crossEnv ''matc'' ''tools'' = Inr [''tools/bin/matc.exe'', ''tools/bin/matc'']
   \<and> toolPath (MaterialCompiler crossEnv [''tools/bin/matc.exe'', ''tools/bin/matc''] ''out'' ''/work/out'')
       = ''tools/bin/matc''
   \<and> \<not> fileExists crossEnv ''tools/bin/matc''
   \<and> MaterialCompiler_execute crossEnv
         (MaterialCompiler crossEnv [''tools/bin/matc.exe'', ''tools/bin/matc''] ''out'' ''/work/out'')
         \<lparr>incremental = False, outOfDate = [File ''in'' ''a.mat''], removed = []\<rparr>
         \<lparr>files = [File ''out'' ''old.filamat''], trace = []\<rparr>
       = Threw (ExecStartException ''tools/bin/matc'')
           \<lparr>files = [],
            trace = [Delete (File ''out'' ''old.filamat'') True,
                     Logged LIFECYCLE (''Compiling material in/a.mat'' @ [CHR 0x0A])]\<rparr>
   \<and> MaterialCompiler_execute crossEnv
         (MaterialCompiler crossEnv [''tools/bin/matc.exe'', ''tools/bin/matc''] ''out'' ''/work/out'')
         \<lparr>incremental = True, outOfDate = [], removed = []\<rparr>
         \<lparr>files = [File ''out'' ''old.filamat''], trace = []\<rparr>
       = Ok \<lparr>files = [File ''out'' ''old.filamat''], trace = []\<rparr>"
proof (intro conjI)
  show "getBinaries crossEnv ''matc'' ''tools'' = Inr [''tools/bin/matc.exe'', ''tools/bin/matc'']"
    by (simp add: getBinaries_def crossEnv_def Let_def)
  show "toolPath (MaterialCompiler crossEnv [''tools/bin/matc.exe'', ''tools/bin/matc''] ''out'' ''/work/out'')
       = ''tools/bin/matc''"
    by (simp add: MaterialCompiler_def crossEnv_def)
  show "\<not> fileExists crossEnv ''tools/bin/matc''"
    by (simp add: crossEnv_def)
  have t: "MaterialCompiler crossEnv [''tools/bin/matc.exe'', ''tools/bin/matc''] ''out'' ''/work/out''
             = \<lparr>toolPath = ''tools/bin/matc'', outputDir = ''out'', outputDirAbsolutePath = ''/work/out''\<rparr>"
    by (simp add: MaterialCompiler_def crossEnv_def)
  have g: "glob ''*.filamat'' ''old.filamat''" by simp
  show "MaterialCompiler_execute crossEnv
         (MaterialCompiler crossEnv [''tools/bin/matc.exe'', ''tools/bin/matc''] ''out'' ''/work/out'')
         \<lparr>incremental = False, outOfDate = [File ''in'' ''a.mat''], removed = []\<rparr>
         \<lparr>files = [File ''out'' ''old.filamat''], trace = []\<rparr>
       = Threw (ExecStartException ''tools/bin/matc'')
           \<lparr>files = [],
            trace = [Delete (File ''out'' ''old.filamat'') True,
                     Logged LIFECYCLE (''Compiling material in/a.mat'' @ [CHR 0x0A])]\<rparr>"
    unfolding t
    by (simp add: MaterialCompiler_execute_def fileTree_matching_def g
        MaterialCompiler_outOfDate_def MaterialCompiler_getOutputFile_def getAt_def
        substring_def Let_def toString_def LogOutputStream_flush_def project_exec_def crossEnv_def)
  show "MaterialCompiler_execute crossEnv
         (MaterialCompiler crossEnv [''tools/bin/matc.exe'', ''tools/bin/matc''] ''out'' ''/work/out'')
         \<lparr>incremental = True, outOfDate = [], removed = []\<rparr>
         \<lparr>files = [File ''out'' ''old.filamat''], trace = []\<rparr>
       = Ok \<lparr>files = [File ''out'' ''old.filamat''], trace = []\<rparr>"
    by (simp add: MaterialCompiler_execute_def)
qed

lemma process_missing:
  assumes "\<not> fileExists env (toolPath t)" and "commands k t f = Inr (c # cs)"
  shows "process k env t f w
           = Threw (ExecStartException (toolPath t)) (LogOutputStream_flush LIFECYCLE (header k f) w)"
  by (simp add: process_def assms(2) project_exec_missing [OF assms(1)])

text \<open>
  C8, amended: when neither \<open>bin/<name>.exe\<close> nor \<open>bin/<name>\<close> exists under the
  tools directory, \<open>getBinaries\<close> stops the script with the missing-tool error, before
  any task exists; when one of the two exists it returns both paths.  A task whose own
  tool path does not exist fails with a process start error when it comes to its first
  changed input, after the clean-up and the header line of that input.
\<close>

theorem C8_missing_tool:
  "(\<not> fileExists env (toolsPath @ ''/bin/'' @ n @ ''.exe'') \<and> \<not> fileExists env (toolsPath @ ''/bin/'' @ n)
      \<longrightarrow> (\<exists>msg. getBinaries env n toolsPath = Inl (StopActionException msg)))
   \<and> (fileExists env (toolsPath @ ''/bin/'' @ n @ ''.exe'') \<or> fileExists env (toolsPath @ ''/bin/'' @ n)
      \<longrightarrow> getBinaries env n toolsPath
            = Inr [toolsPath @ ''/bin/'' @ n @ ''.exe'', toolsPath @ ''/bin/'' @ n])
   \<and> (\<not> fileExists env (toolPath t) \<and> clean k env t inputs w = Ok w1
        \<and> outOfDate inputs = f # fs \<and> commands k t f = Inr (c # cs)
      \<longrightarrow> execute k env t inputs w
            = Threw (ExecStartException (toolPath t))
                (LogOutputStream_flush LIFECYCLE (header k f) w1))"
proof (intro conjI impI)
  assume "\<not> fileExists env (toolsPath @ ''/bin/'' @ n @ ''.exe'') \<and> \<not> fileExists env (toolsPath @ ''/bin/'' @ n)"
  then show "\<exists>msg. getBinaries env n toolsPath = Inl (StopActionException msg)"
    by (simp add: getBinaries_def Let_def)
next
  assume "fileExists env (toolsPath @ ''/bin/'' @ n @ ''.exe'') \<or> fileExists env (toolsPath @ ''/bin/'' @ n)"
  then show "getBinaries env n toolsPath
            = Inr [toolsPath @ ''/bin/'' @ n @ ''.exe'', toolsPath @ ''/bin/'' @ n]"
    by (auto simp add: getBinaries_def Let_def)
next
  assume a: "\<not> fileExists env (toolPath t) \<and> clean k env t inputs w = Ok w1
        \<and> outOfDate inputs = f # fs \<and> commands k t f = Inr (c # cs)"
  then have m: "\<not> fileExists env (toolPath t)" and cl: "clean k env t inputs w = Ok w1"
    and o: "outOfDate inputs = f # fs" and cs: "commands k t f = Inr (c # cs)"
    by simp_all
  show "execute k env t inputs w
            = Threw (ExecStartException (toolPath t))
                (LogOutputStream_flush LIFECYCLE (header k f) w1)"
    by (simp add: execute_engine engine_def cl o process_missing [OF m cs])
qed

theorem C8_missing_tool_witness:
  "(\<exists>msg. getBinaries crossEnv ''cmgen'' ''tools'' = Inl (StopActionException msg))
   \<and> getBinaries crossEnv ''matc'' ''tools'' = Inr [''tools/bin/matc.exe'', ''tools/bin/matc'']
   \<and> execute Material crossEnv exampleTask
         \<lparr>incremental = True, outOfDate = [File ''in'' ''a.mat''], removed = []\<rparr> exampleWorld
       = Threw (ExecStartException ''tools/bin/matc'')
           (LogOutputStream_flush LIFECYCLE (''Compiling material in/a.mat'' @ [CHR 0x0A]) exampleWorld)"
proof (intro conjI)
  have n: "\<not> fileExists crossEnv (''tools'' @ ''/bin/'' @ ''cmgen'' @ ''.exe'')
             \<and> \<not> fileExists crossEnv (''tools'' @ ''/bin/'' @ ''cmgen'')"
    by (simp add: crossEnv_def)
  from C8_missing_tool [of crossEnv "''tools''" "''cmgen''"] n
  show "\<exists>msg. getBinaries crossEnv ''cmgen'' ''tools'' = Inl (StopActionException msg)"
    by blast
next
  have y: "fileExists crossEnv (''tools'' @ ''/bin/'' @ ''matc'' @ ''.exe'')
             \<or> fileExists crossEnv (''tools'' @ ''/bin/'' @ ''matc'')"
    by (simp add: crossEnv_def)
  from C8_missing_tool [of crossEnv "''tools''" "''matc''"] y
  have "getBinaries crossEnv ''matc'' ''tools''
          = Inr [''tools'' @ ''/bin/'' @ ''matc'' @ ''.exe'', ''tools'' @ ''/bin/'' @ ''matc'']"
    by blast
  then show "getBinaries crossEnv ''matc'' ''tools'' = Inr [''tools/bin/matc.exe'', ''tools/bin/matc'']"
    by simp
next
  let ?inputs = "\<lparr>incremental = True, outOfDate = [File ''in'' ''a.mat''], removed = []\<rparr>"
  have h: "\<not> fileExists crossEnv (toolPath exampleTask)
        \<and> clean Material crossEnv exampleTask ?inputs exampleWorld = Ok exampleWorld
        \<and> outOfDate ?inputs = File ''in'' ''a.mat'' # []
        \<and> commands Material exampleTask (File ''in'' ''a.mat'')
            = Inr ([''-O'', ''-p'', ''mobile'', ''-o'', ''out/a.filamat'', ''in/a.mat''] # [])"
    by (simp add: crossEnv_def exampleTask_def clean_def commands_a [unfolded exampleTask_def])
  have t: "toolPath exampleTask = ''tools/bin/matc''" by (simp add: exampleTask_def)
  have hd: "header Material (File ''in'' ''a.mat'') = ''Compiling material in/a.mat'' @ [CHR 0x0A]"
    by (simp add: header_def toString_def)
  from C8_missing_tool [of crossEnv _ _ exampleTask Material ?inputs exampleWorld exampleWorld
                           "File ''in'' ''a.mat''" "[]"
                           "[''-O'', ''-p'', ''mobile'', ''-o'', ''out/a.filamat'', ''in/a.mat'']" "[]"] h
  have "execute Material crossEnv exampleTask ?inputs exampleWorld
            = Threw (ExecStartException (toolPath exampleTask))
                (LogOutputStream_flush LIFECYCLE (header Material (File ''in'' ''a.mat'')) exampleWorld)"
    by blast
  then show "execute Material crossEnv exampleTask ?inputs exampleWorld
       = Threw (ExecStartException ''tools/bin/matc'')
           (LogOutputStream_flush LIFECYCLE (''Compiling material in/a.mat'' @ [CHR 0x0A]) exampleWorld)"
    unfolding t hd .
qed

subsection \<open>The invocations of a run\<close>

lemma project_exec_execs:
  "project_exec env exe a w = Ok w' \<Longrightarrow> execsOf (trace w') = execsOf (trace w) @ [(exe, a)]"
  "project_exec env exe a w = Threw e w' \<Longrightarrow>
     execsOf (trace w') = execsOf (trace w) \<or> execsOf (trace w') = execsOf (trace w) @ [(exe, a)]"
  by (auto simp add: project_exec_def Let_def split: if_splits)

lemma runAll_execs_Ok:
  "runAll env exe cs w = Ok w' \<Longrightarrow> execsOf (trace w') = execsOf (trace w) @ map (Pair exe) cs"
proof (induction cs arbitrary: w)
  case Nil
  then show ?case by simp
next
  case (Cons a cs)
  show ?case
  proof (cases "project_exec env exe a w")
    case (Ok w1)
    with Cons.prems have "runAll env exe cs w1 = Ok w'" by simp
    from Cons.IH [OF this] project_exec_execs(1) [OF Ok] show ?thesis by simp
  next
    case (Threw e w1)
    with Cons.prems show ?thesis by simp
  qed
qed

lemma runAll_execs_Threw:
  "runAll env exe cs w = Threw e w' \<Longrightarrow>
     \<exists>p. prefix p (map (Pair exe) cs) \<and> execsOf (trace w') = execsOf (trace w) @ p"
proof (induction cs arbitrary: w)
  case Nil
  then show ?case by simp
next
  case (Cons a cs)
  show ?case
  proof (cases "project_exec env exe a w")
    case (Ok w1)
    with Cons.prems have "runAll env exe cs w1 = Threw e w'" by simp
    from Cons.IH [OF this] obtain p where
      p: "prefix p (map (Pair exe) cs)" and x: "execsOf (trace w') = execsOf (trace w1) @ p"
      by (elim exE conjE)
    have "prefix ((exe, a) # p) (map (Pair exe) (a # cs))" using p by simp
    moreover have "execsOf (trace w') = execsOf (trace w) @ (exe, a) # p"
      using x project_exec_execs(1) [OF Ok] by simp
    ultimately show ?thesis by (intro exI [of _ "(exe, a) # p"] conjI)
  next
    case (Threw e1 w1)
    with Cons.prems have w1: "w1 = w'" by simp
    from project_exec_execs(2) [OF Threw] w1
    have "execsOf (trace w') = execsOf (trace w) @ [] \<or> execsOf (trace w') = execsOf (trace w) @ [(exe, a)]"
      by simp
    then show ?thesis
    proof
      assume "execsOf (trace w') = execsOf (trace w) @ []"
      then show ?thesis by (intro exI [of _ "[]"] conjI) simp_all
    next
      assume "execsOf (trace w') = execsOf (trace w) @ [(exe, a)]"
      then show ?thesis by (intro exI [of _ "[(exe, a)]"] conjI) simp_all
    qed
  qed
qed

lemma process_execs_Ok:
  assumes "process k env t f w = Ok w'"
  shows "execsOf (trace w') = execsOf (trace w) @ invocations k t f"
proof (cases "commands k t f")
  case (Inl e)
  with assms show ?thesis by (simp add: process_def)
next
  case (Inr cs)
  with assms have "runAll env (toolPath t) cs (LogOutputStream_flush LIFECYCLE (header k f) w) = Ok w'"
    by (simp add: process_def)
  from runAll_execs_Ok [OF this] Inr show ?thesis
    by (simp add: invocations_def LogOutputStream_flush_def)
qed

lemma process_execs_Threw:
  assumes "process k env t f w = Threw e w'"
  shows "\<exists>p. prefix p (invocations k t f) \<and> execsOf (trace w') = execsOf (trace w) @ p"
proof (cases "commands k t f")
  case (Inl e1)
  with assms have "execsOf (trace w') = execsOf (trace w) @ []"
    by (auto simp add: process_def LogOutputStream_flush_def)
  then show ?thesis by (intro exI [of _ "[]"] conjI) simp_all
next
  case (Inr cs)
  with assms have "runAll env (toolPath t) cs (LogOutputStream_flush LIFECYCLE (header k f) w) = Threw e w'"
    by (simp add: process_def)
  from runAll_execs_Threw [OF this] Inr show ?thesis
    by (simp add: invocations_def LogOutputStream_flush_def)
qed

lemma forEach_execs_Ok:
  "forEach (process k env t) fs w = Ok w' \<Longrightarrow>
     execsOf (trace w') = execsOf (trace w) @ concat (map (invocations k t) fs)"
proof (induction fs arbitrary: w)
  case Nil
  then show ?case by simp
next
  case (Cons f fs)
  show ?case
  proof (cases "process k env t f w")
    case (Ok w1)
    with Cons.prems have "forEach (process k env t) fs w1 = Ok w'" by simp
    from Cons.IH [OF this] process_execs_Ok [OF Ok] show ?thesis by simp
  next
    case (Threw e w1)
    with Cons.prems show ?thesis by simp
  qed
qed

lemma forEach_execs_Threw:
  "forEach (process k env t) fs w = Threw e w' \<Longrightarrow>
     \<exists>p. prefix p (concat (map (invocations k t) fs)) \<and> execsOf (trace w') = execsOf (trace w) @ p"
proof (induction fs arbitrary: w)
  case Nil
  then show ?case by simp
next
  case (Cons f fs)
  show ?case
  proof (cases "process k env t f w")
    case (Ok w1)
    with Cons.prems have "forEach (process k env t) fs w1 = Threw e w'" by simp
    from Cons.IH [OF this] obtain p where
      p: "prefix p (concat (map (invocations k t) fs))"
      and x: "execsOf (trace w') = execsOf (trace w1) @ p"
      by (elim exE conjE)
    have "prefix (invocations k t f @ p) (concat (map (invocations k t) (f # fs)))"
      using p by simp
    moreover have "execsOf (trace w') = execsOf (trace w) @ invocations k t f @ p"
      using x process_execs_Ok [OF Ok] by simp
    ultimately show ?thesis by (intro exI [of _ "invocations k t f @ p"] conjI)
  next
    case (Threw e1 w1)
    with Cons.prems have w1: "w1 = w'" by simp
    from process_execs_Threw [OF Threw] obtain p where
      p: "prefix p (invocations k t f)" and x: "execsOf (trace w1) = execsOf (trace w) @ p"
      by (elim exE conjE)
    have "prefix p (concat (map (invocations k t) (f # fs)))"
      using p by (simp add: prefix_prefix)
    moreover from x w1 have "execsOf (trace w') = execsOf (trace w) @ p" by simp
    ultimately show ?thesis by (intro exI [of _ p] conjI)
  qed
qed

lemma clean_execs:
  "execsOf (trace (worldOf (clean k env t inputs w))) = execsOf (trace w)"
proof (cases "clean k env t inputs w")
  case (Ok w1)
  then show ?thesis
    using project_delete_ok [of env "fileTree_matching (outputDir t) (pattern k) w" w w1]
    by (auto simp add: clean_def worldOf_def split: if_splits)
next
  case (Threw e w1)
  then show ?thesis
    using project_delete_threw [of env "fileTree_matching (outputDir t) (pattern k) w" w e w1]
    by (auto simp add: clean_def worldOf_def split: if_splits)
qed

lemma execute_execs:
  "\<exists>p. prefix p (concat (map (invocations k t) (outOfDate inputs)))
       \<and> execsOf (trace (worldOf (execute k env t inputs w))) = execsOf (trace w) @ p"
proof (cases "clean k env t inputs w")
  case (Threw e w1)
  then have "execute k env t inputs w = Threw e w1"
    by (simp add: execute_engine engine_def)
  with clean_execs [of k env t inputs w] Threw
  have "execsOf (trace (worldOf (execute k env t inputs w))) = execsOf (trace w) @ []"
    by (simp add: worldOf_def)
  then show ?thesis by (intro exI [of _ "[]"] conjI) simp_all
next
  case (Ok w1)
  with clean_execs [of k env t inputs w] have c: "execsOf (trace w1) = execsOf (trace w)"
    by (simp add: worldOf_def)
  show ?thesis
  proof (cases "forEach (process k env t) (outOfDate inputs) w1")
    case (Threw e w2)
    then have "execute k env t inputs w = Threw e w2"
      by (simp add: execute_engine engine_def Ok)
    then have w: "worldOf (execute k env t inputs w) = w2" by (simp add: worldOf_def)
    from forEach_execs_Threw [OF Threw] obtain p where
      p: "prefix p (concat (map (invocations k t) (outOfDate inputs)))"
      and x: "execsOf (trace w2) = execsOf (trace w1) @ p"
      by (elim exE conjE)
    from x c w have "execsOf (trace (worldOf (execute k env t inputs w))) = execsOf (trace w) @ p"
      by simp
    with p show ?thesis by (intro exI [of _ p] conjI)
  next
    case (Ok w2)
    then have "execute k env t inputs w
                 = forEach (deleteMapped (getOutputFile k t) env) (removed inputs) w2"
      by (simp add: execute_engine engine_def \<open>clean k env t inputs w = Ok w1\<close>)
    then have "execsOf (trace (worldOf (execute k env t inputs w))) = execsOf (trace w2)"
      by (simp add: removed_phase_execs)
    with forEach_execs_Ok [OF Ok] c
    have "execsOf (trace (worldOf (execute k env t inputs w)))
            = execsOf (trace w) @ concat (map (invocations k t) (outOfDate inputs))"
      by simp
    then show ?thesis
      by (intro exI [of _ "concat (map (invocations k t) (outOfDate inputs))"] conjI) simp_all
  qed
qed

subsection \<open>The two command lines of the IBL task\<close>




subsection \<open>Removed inputs\<close>


lemma project_exec_deletes:
  "deletesOf (trace (worldOf (project_exec env exe a w))) = deletesOf (trace w)"
  by (simp add: project_exec_def worldOf_def Let_def)

lemma runAll_deletes:
  "deletesOf (trace (worldOf (runAll env exe cs w))) = deletesOf (trace w)"
proof (induction cs arbitrary: w)
  case Nil
  then show ?case by (simp add: worldOf_def)
next
  case (Cons a cs)
  show ?case
  proof (cases "project_exec env exe a w")
    case (Ok w1)
    with project_exec_deletes [of env exe a w]
    have d: "deletesOf (trace w1) = deletesOf (trace w)" by (simp add: worldOf_def)
    from Ok have "runAll env exe (a # cs) w = runAll env exe cs w1" by simp
    with Cons.IH [of w1] d show ?thesis by simp
  next
    case (Threw e w1)
    with project_exec_deletes [of env exe a w]
    have d: "deletesOf (trace w1) = deletesOf (trace w)" by (simp add: worldOf_def)
    from Threw have "runAll env exe (a # cs) w = Threw e w1" by simp
    with d show ?thesis by (simp add: worldOf_def)
  qed
qed

lemma process_deletes:
  "deletesOf (trace (worldOf (process k env t f w))) = deletesOf (trace w)"
proof (cases "commands k t f")
  case (Inl e)
  then show ?thesis by (simp add: process_def worldOf_def LogOutputStream_flush_def)
next
  case (Inr cs)
  with runAll_deletes [of env "toolPath t" cs "LogOutputStream_flush LIFECYCLE (header k f) w"]
  show ?thesis by (simp add: process_def LogOutputStream_flush_def)
qed

lemma forEach_process_deletes:
  "deletesOf (trace (worldOf (forEach (process k env t) fs w))) = deletesOf (trace w)"
proof (induction fs arbitrary: w)
  case Nil
  then show ?case by (simp add: worldOf_def)
next
  case (Cons a fs)
  show ?case
  proof (cases "process k env t a w")
    case (Ok w1)
    with process_deletes [of k env t a w]
    have d: "deletesOf (trace w1) = deletesOf (trace w)" by (simp add: worldOf_def)
    from Ok have "forEach (process k env t) (a # fs) w = forEach (process k env t) fs w1" by simp
    with Cons.IH [of w1] d show ?thesis by simp
  next
    case (Threw e w1)
    with process_deletes [of k env t a w]
    have d: "deletesOf (trace w1) = deletesOf (trace w)" by (simp add: worldOf_def)
    from Threw have "forEach (process k env t) (a # fs) w = Threw e w1" by simp
    with d show ?thesis by (simp add: worldOf_def)
  qed
qed


lemma example_process_a:
  "forEach (process Material exampleEnv exampleTask) [File ''in'' ''a.mat''] exampleWorld
   = Ok \<lparr>files = [File ''out'' ''c.filamat'', File ''out'' ''d.filamat''],
         trace = [Logged LIFECYCLE (''Compiling material in/a.mat'' @ [CHR 0x0A]),
                  Exec ''tools/bin/matc''
                    [''-O'', ''-p'', ''mobile'', ''-o'', ''out/a.filamat'', ''in/a.mat''] 0]\<rparr>"
  by (simp add: process_def commands_a header_def toString_def LogOutputStream_flush_def Let_def)
     (simp add: project_exec_def exampleEnv_def exampleTask_def exampleWorld_def)

lemma example_process_bad:
  "forEach (process Material exampleEnv exampleTask) [File ''in'' ''bad.mat''] exampleWorld
   = Threw (ExecException ''tools/bin/matc'' 1)
       \<lparr>files = [File ''out'' ''c.filamat'', File ''out'' ''d.filamat''],
        trace = [Logged LIFECYCLE (''Compiling material in/bad.mat'' @ [CHR 0x0A]),
                 Exec ''tools/bin/matc''
                   [''-O'', ''-p'', ''mobile'', ''-o'', ''out/bad.filamat'', ''in/bad.mat''] 1]\<rparr>"
  by (simp add: process_def commands_bad header_def toString_def LogOutputStream_flush_def Let_def)
     (simp add: project_exec_def exampleEnv_def exampleTask_def exampleWorld_def)

lemma example_delta_bad:
  "computeDelta (Some [(File ''in'' ''b.mat'', 3), (File ''in'' ''d.mat'', 2)])
                [(File ''in'' ''bad.mat'', 5), (File ''in'' ''b.mat'', 3)]
   = \<lparr>incremental = True, outOfDate = [File ''in'' ''bad.mat''], removed = [File ''in'' ''d.mat'']\<rparr>"
  by (simp add: computeDelta_def)


lemma project_delete_fail:
  "\<not> list_all (deletable env) fs \<Longrightarrow>
     \<exists>f w1. f \<in> set fs \<and> \<not> deletable env f
       \<and> project_delete env fs w
           = Threw (UncheckedIOException (''Unable to delete file: '' @ toString f)) w1
       \<and> execsOf (trace w1) = execsOf (trace w)"
proof (induction fs arbitrary: w)
  case Nil
  then show ?case by simp
next
  case (Cons a fs)
  show ?case
  proof (cases "deletable env a")
    case True
    let ?w1 = "w\<lparr>files := removeAll a (files w), trace := trace w @ [Delete a True]\<rparr>"
    from Cons.prems True have "\<not> list_all (deletable env) fs" by simp
    from Cons.IH [OF this, of ?w1] obtain f w1 where
      f: "f \<in> set fs" and n: "\<not> deletable env f"
      and p: "project_delete env fs ?w1
                = Threw (UncheckedIOException (''Unable to delete file: '' @ toString f)) w1"
      and x: "execsOf (trace w1) = execsOf (trace ?w1)"
      by (elim exE conjE)
    have f': "f \<in> set (a # fs)" using f by simp
    have p': "project_delete env (a # fs) w
                = Threw (UncheckedIOException (''Unable to delete file: '' @ toString f)) w1"
      using True p by simp
    have x': "execsOf (trace w1) = execsOf (trace w)" using x by simp
    from f' n p' x' show ?thesis by (intro exI [of _ f] exI [of _ w1] conjI)
  next
    case False
    let ?w1 = "w\<lparr>trace := trace w @ [Delete a False]\<rparr>"
    have f': "a \<in> set (a # fs)" by simp
    have p': "project_delete env (a # fs) w
                = Threw (UncheckedIOException (''Unable to delete file: '' @ toString a)) ?w1"
      using False by simp
    have x': "execsOf (trace ?w1) = execsOf (trace w)" by simp
    from f' False p' x' show ?thesis by (intro exI [of _ a] exI [of _ ?w1] conjI)
  qed
qed

subsection \<open>The full rebuild\<close>




end
